theory Spec2Isabelle
  imports Complex_Main
begin

section \<open>Values of the host language\<close>

text \<open>
  A JavaScript number is a finite value or NaN. The code never computes with the
  numbers it handles: it only tests them for truthiness (\<open>||\<close>) and passes them on,
  so the finite values are taken as reals. \<open>0\<close> and NaN are falsy.
\<close>

datatype jsnum = NaN | Num real

fun truthy :: "jsnum \<Rightarrow> bool" where
  "truthy NaN = False"
| "truthy (Num x) = (x \<noteq> 0)"

text \<open>\<open>a || b\<close> on optional numbers (\<open>None\<close> is \<open>undefined\<close>).\<close>

fun js_or :: "jsnum option \<Rightarrow> jsnum option \<Rightarrow> jsnum option" where
  "js_or (Some x) b = (if truthy x then Some x else b)"
| "js_or None b = b"

text \<open>\<open>a || d\<close> where the last operand \<open>d\<close> is a numeric literal.\<close>

fun js_or_lit :: "jsnum option \<Rightarrow> jsnum \<Rightarrow> jsnum" where
  "js_or_lit (Some x) d = (if truthy x then x else d)"
| "js_or_lit None d = d"

text \<open>\<open>s || d\<close> on an optional string: \<open>undefined\<close> and the empty string are falsy.\<close>

fun js_or_str :: "string option \<Rightarrow> string \<Rightarrow> string" where
  "js_or_str (Some s) d = (if s \<noteq> [] then s else d)"
| "js_or_str None d = d"


text \<open>A value stored in a settings field (\<open>updateSetting\<close> takes \<open>value: any\<close>).\<close>

datatype jsval = Str string | Number jsnum

text \<open>A thrown value: an \<open>Error\<close> with its message.\<close>

datatype exn = JsError string

fun message :: "exn \<Rightarrow> string" where
  "message (JsError m) = m"

section \<open>types.ts\<close>

record CameraDevice =
  deviceId :: string
  label :: string

record CapRange =
  range_min :: jsnum
  range_max :: jsnum
  range_step :: jsnum

record CameraCapabilities =
  cap_focusMode :: "string list option"
  cap_focusDistance :: "CapRange option"
  cap_zoom :: "CapRange option"
  cap_brightness :: "CapRange option"
  cap_contrast :: "CapRange option"
  cap_saturation :: "CapRange option"
  cap_sharpness :: "CapRange option"

record CameraSettings =
  focusMode :: jsval
  focusDistance :: jsval
  zoom :: jsval
  brightness :: jsval
  contrast :: jsval

datatype OS = WINDOWS | LINUX | MACOS

datatype ScriptType = native | python

record ScriptGenerationParams =
  os :: OS
  cameraName :: string
  param_settings :: CameraSettings
  scriptType :: ScriptType

text \<open>The keys of \<open>CameraSettings\<close> (\<open>keyof CameraSettings\<close>).\<close>

datatype setting_key = FocusMode | FocusDistance | Zoom | Brightness | Contrast

fun get_setting :: "setting_key \<Rightarrow> CameraSettings \<Rightarrow> jsval" where
  "get_setting FocusMode s = focusMode s"
| "get_setting FocusDistance s = focusDistance s"
| "get_setting Zoom s = zoom s"
| "get_setting Brightness s = brightness s"
| "get_setting Contrast s = contrast s"

text \<open>The object spread \<open>{ ...prev, [key]: value }\<close>.\<close>

fun set_setting :: "setting_key \<Rightarrow> jsval \<Rightarrow> CameraSettings \<Rightarrow> CameraSettings" where
  "set_setting FocusMode v prev = prev\<lparr>focusMode := v\<rparr>"
| "set_setting FocusDistance v prev = prev\<lparr>focusDistance := v\<rparr>"
| "set_setting Zoom v prev = prev\<lparr>zoom := v\<rparr>"
| "set_setting Brightness v prev = prev\<lparr>brightness := v\<rparr>"
| "set_setting Contrast v prev = prev\<lparr>contrast := v\<rparr>"

text \<open>The capability range of a numeric key, where \<open>CameraCapabilities\<close> has one.\<close>

fun cap_of :: "setting_key \<Rightarrow> CameraCapabilities \<Rightarrow> CapRange option" where
  "cap_of FocusMode caps = None"
| "cap_of FocusDistance caps = cap_focusDistance caps"
| "cap_of Zoom caps = cap_zoom caps"
| "cap_of Brightness caps = cap_brightness caps"
| "cap_of Contrast caps = cap_contrast caps"


section \<open>The host capture API\<close>

text \<open>What \<open>track.getSettings()\<close> reports: every field is optional.\<close>

record MediaTrackSettings =
  hw_focusMode :: "string option"
  hw_focusDistance :: "jsnum option"
  hw_zoom :: "jsnum option"
  hw_brightness :: "jsnum option"
  hw_contrast :: "jsnum option"

text \<open>Truthiness of a stored value: a string is falsy when it is empty.\<close>

fun truthy_val :: "jsval \<Rightarrow> bool" where
  "truthy_val (Str s) = (s \<noteq> [])"
| "truthy_val (Number n) = truthy n"

text \<open>What the hardware reports for a key of \<open>CameraSettings\<close>, if anything.\<close>

fun hw_of :: "setting_key \<Rightarrow> MediaTrackSettings \<Rightarrow> jsval option" where
  "hw_of FocusMode h = map_option Str (hw_focusMode h)"
| "hw_of FocusDistance h = map_option Number (hw_focusDistance h)"
| "hw_of Zoom h = map_option Number (hw_zoom h)"
| "hw_of Brightness h = map_option Number (hw_brightness h)"
| "hw_of Contrast h = map_option Number (hw_contrast h)"

text \<open>
  A video track as the application sees it: what \<open>getCapabilities()\<close> and
  \<open>getSettings()\<close> return.
\<close>

record MediaStreamTrack =
  track_caps :: CameraCapabilities
  track_settings :: MediaTrackSettings

text \<open>
  A stream handed out by \<open>getUserMedia\<close>. The requests of this program ask for video
  only, so every track is a video track. \<open>stream_id\<close> is the host's identity of the
  stream (its position among the streams handed out so far); a track is named by its
  stream and its index. \<open>stream_device\<close> is the device the stream is bound to: the
  request says \<open>deviceId: { exact: ... }\<close>, so it is the requested device.
\<close>

record MediaStream =
  stream_id :: nat
  stream_device :: string
  stream_tracks :: "MediaStreamTrack list"

datatype MediaDeviceKind = audioinput | audiooutput | videoinput

record MediaDeviceInfo =
  info_deviceId :: string
  info_kind :: MediaDeviceKind
  info_label :: string

text \<open>The calls the application makes on the host, in the order it makes them.\<close>

datatype host_call =
    GetUserMediaVideo
  | EnumerateDevices
  | GetUserMedia string
  | TrackStop nat nat
  | ApplyConstraints nat nat setting_key jsval

text \<open>How the host settles a \<open>getUserMedia\<close> promise.\<close>

datatype response = Granted "MediaStreamTrack list" | Rejected exn

section \<open>App.tsx: the session\<close>

text \<open>
  The component's state (\<open>useState\<close>, \<open>useRef\<close>), followed by the host's side:
  the \<open>getUserMedia\<close> requests of \<open>startStream\<close> still in flight (oldest first, by
  requested device), the log of host calls, the streams handed out, and the console.
\<close>

record session =
  devices :: "CameraDevice list"
  selectedDeviceId :: string
  error :: "string option"
  capabilities :: CameraCapabilities
  settings :: CameraSettings
  streamRef :: "MediaStream option"
  videoRef :: "MediaStream option option"
  pending :: "string list"
  calls :: "host_call list"
  opened :: "MediaStream list"
  console :: "string list"

definition no_capabilities :: CameraCapabilities where
  "no_capabilities = \<lparr>cap_focusMode = None, cap_focusDistance = None, cap_zoom = None,
     cap_brightness = None, cap_contrast = None, cap_saturation = None, cap_sharpness = None\<rparr>"

definition initial_settings :: CameraSettings where
  "initial_settings = \<lparr>focusMode = Str ''continuous'', focusDistance = Number (Num 0),
     zoom = Number (Num 1), brightness = Number (Num 100), contrast = Number (Num 100)\<rparr>"

definition initial_session :: session where
  "initial_session = \<lparr>devices = [], selectedDeviceId = [], error = None,
     capabilities = no_capabilities, settings = initial_settings, streamRef = None,
     videoRef = Some None, pending = [], calls = [], opened = [], console = []\<rparr>"

subsection \<open>getCameras\<close>

definition permission_message :: string where
  "permission_message = ''Failed to access camera permissions. Please allow camera access.''"

definition stream_message :: string where
  "stream_message = ''Failed to start video stream. The camera might be in use by another app.''"

text \<open>
  The label of a listed device: \<open>device.label || `Camera ${device.deviceId.slice(0, 5)}...`\<close>.
  The characters of a string are its code units.
\<close>

definition device_label :: "MediaDeviceInfo \<Rightarrow> string" where
  "device_label device =
     (if info_label device \<noteq> [] then info_label device
      else ''Camera '' @ take 5 (info_deviceId device) @ ''...'')"

definition videoDevices :: "MediaDeviceInfo list \<Rightarrow> CameraDevice list" where
  "videoDevices ds =
     map (\<lambda>device. \<lparr>deviceId = info_deviceId device, label = device_label device\<rparr>)
       (filter (\<lambda>device. info_kind device = videoinput) ds)"

text \<open>
  \<open>getCameras\<close>, given the \<open>selectedDeviceId\<close> its \<open>useCallback\<close> closure captured
  when it was created, and how the host settles the permission request
  (\<open>getUserMedia({ video: true })\<close>) and \<open>enumerateDevices()\<close>. The stream of a granted
  permission request is handed out by the host (the request names no device: the
  device is left empty) and dropped by the code, which never stops it. Both awaits
  are inside one \<open>try\<close>, whose \<open>catch\<close> sets the error message. The test
  \<open>!selectedDeviceId\<close> reads the captured value, not the state at the time the
  result is applied.
\<close>

definition getCameras ::
  "string \<Rightarrow> response \<Rightarrow> exn + MediaDeviceInfo list \<Rightarrow> session \<Rightarrow> session" where
  "getCameras captured permission inventory s =
     (let s0 = s\<lparr>calls := calls s @ [GetUserMediaVideo]\<rparr>
      in case permission of
           Rejected e \<Rightarrow> s0\<lparr>error := Some permission_message\<rparr>
         | Granted ts \<Rightarrow>
             (let s1 = s0\<lparr>opened := opened s0 @
                     [\<lparr>stream_id = length (opened s0), stream_device = [], stream_tracks = ts\<rparr>],
                   calls := calls s0 @ [EnumerateDevices]\<rparr>
              in case inventory of
                   Inl e \<Rightarrow> s1\<lparr>error := Some permission_message\<rparr>
                 | Inr ds \<Rightarrow>
                     (let vs = videoDevices ds; s2 = s1\<lparr>devices := vs\<rparr>
                      in case vs of
                           [] \<Rightarrow> s2
                         | v # _ \<Rightarrow>
                             if captured = [] then s2\<lparr>selectedDeviceId := deviceId v\<rparr>
                             else s2)))"

subsection \<open>startStream\<close>

text \<open>The state update of \<open>setSettings(prev => ...)\<close> in \<open>startStream\<close>.\<close>

definition reconcile :: "CameraSettings \<Rightarrow> CameraCapabilities \<Rightarrow> MediaTrackSettings \<Rightarrow> CameraSettings" where
  "reconcile prev caps currentSettings = prev\<lparr>
     focusMode := Str (js_or_str (hw_focusMode currentSettings) ''continuous''),
     focusDistance := Number (js_or_lit (js_or (hw_focusDistance currentSettings)
         (map_option range_min (cap_focusDistance caps))) (Num 0)),
     zoom := Number (js_or_lit (js_or (hw_zoom currentSettings)
         (map_option range_min (cap_zoom caps))) (Num 1)),
     brightness := Number (js_or_lit (js_or (hw_brightness currentSettings)
         (map_option range_min (cap_brightness caps))) (Num 100)),
     contrast := Number (js_or_lit (js_or (hw_contrast currentSettings)
         (map_option range_min (cap_contrast caps))) (Num 100))\<rparr>"

text \<open>The literal that ends each \<open>||\<close> chain of \<open>reconcile\<close>.\<close>

fun literal_default :: "setting_key \<Rightarrow> jsval" where
  "literal_default FocusMode = Str ''continuous''"
| "literal_default FocusDistance = Number (Num 0)"
| "literal_default Zoom = Number (Num 1)"
| "literal_default Brightness = Number (Num 100)"
| "literal_default Contrast = Number (Num 100)"

text \<open>\<open>stream.getTracks().forEach(track => track.stop())\<close>.\<close>

definition stop_tracks :: "MediaStream \<Rightarrow> session \<Rightarrow> session" where
  "stop_tracks st s =
     s\<lparr>calls := calls s @ map (TrackStop (stream_id st)) [0 ..< length (stream_tracks st)]\<rparr>"

text \<open>
  \<open>startStream\<close> up to its \<open>await\<close>, for the device id \<open>d\<close> its closure holds: return
  at once on an empty id, stop the tracks of the held stream, then request the new one.
\<close>

definition startStream_call :: "string \<Rightarrow> session \<Rightarrow> session" where
  "startStream_call d s =
     (if d = [] then s
      else let s1 = (case streamRef s of None \<Rightarrow> s | Some st \<Rightarrow> stop_tracks st s)
           in s1\<lparr>calls := calls s1 @ [GetUserMedia d], pending := pending s1 @ [d]\<rparr>)"

text \<open>
  \<open>startStream\<close> after its \<open>await\<close>, for the device id \<open>d\<close> it requested and the host's
  answer. A rejection goes to the \<open>catch\<close>. A stream is stored in \<open>streamRef\<close> and in
  the video element when there is one; reading the first video track of a stream
  without tracks gives \<open>undefined\<close>, and the call on it throws into the same \<open>catch\<close>.
\<close>

definition startStream_resume :: "string \<Rightarrow> response \<Rightarrow> session \<Rightarrow> session" where
  "startStream_resume d r s =
     (case r of
        Rejected e \<Rightarrow> s\<lparr>error := Some stream_message, console := console s @ [message e]\<rparr>
      | Granted ts \<Rightarrow>
          (let stream = \<lparr>stream_id = length (opened s), stream_device = d, stream_tracks = ts\<rparr>;
               s1 = s\<lparr>opened := opened s @ [stream], streamRef := Some stream,
                      videoRef := map_option (\<lambda>_. Some stream) (videoRef s)\<rparr>
           in case ts of
                [] \<Rightarrow> s1\<lparr>error := Some stream_message, console := console s1 @ [''TypeError'']\<rparr>
              | track # _ \<Rightarrow>
                  s1\<lparr>capabilities := track_caps track,
                     settings := reconcile (settings s1) (track_caps track) (track_settings track),
                     error := None\<rparr>))"

subsection \<open>applyConstraint, updateSetting\<close>

text \<open>
  \<open>applyConstraint\<close>, given how the host settles \<open>track.applyConstraints\<close>
  (\<open>None\<close>: accepted). The result is \<open>Inl\<close> for an exception that leaves the function.
  Reading the first track is outside the \<open>try\<close> (it does not throw); the call on the
  track is inside, and the \<open>catch\<close> writes a warning.
\<close>

definition warning_message :: string where
  "warning_message = ''Failed to apply constraint:''"

definition applyConstraint :: "exn option \<Rightarrow> setting_key \<Rightarrow> jsval \<Rightarrow> session \<Rightarrow> exn + session" where
  "applyConstraint verdict key v s =
     (case streamRef s of
        None \<Rightarrow> Inr s
      | Some st \<Rightarrow>
          (case stream_tracks st of
             [] \<Rightarrow> Inr (s\<lparr>console := console s @ [warning_message]\<rparr>)
           | track # _ \<Rightarrow>
               (let s1 = s\<lparr>calls := calls s @ [ApplyConstraints (stream_id st) 0 key v]\<rparr>
                in case verdict of
                     None \<Rightarrow> Inr s1
                   | Some e \<Rightarrow> Inr (s1\<lparr>console := console s1 @ [warning_message]\<rparr>))))"

definition updateSetting :: "exn option \<Rightarrow> setting_key \<Rightarrow> jsval \<Rightarrow> session \<Rightarrow> exn + session" where
  "updateSetting verdict key v s =
     applyConstraint verdict key v (s\<lparr>settings := set_setting key v (settings s)\<rparr>)"

fun is_apply :: "host_call \<Rightarrow> bool" where
  "is_apply (ApplyConstraints sid i k v) = True"
| "is_apply _ = False"

subsection \<open>The cleanup of the stream effect\<close>

text \<open>
  The function the \<open>useEffect\<close> around \<open>startStream\<close> returns: it stops the tracks of
  the held stream, when the selection changes and when the component goes away.
\<close>

definition cleanup :: "session \<Rightarrow> session" where
  "cleanup s = (case streamRef s of None \<Rightarrow> s | Some st \<Rightarrow> stop_tracks st s)"

subsection \<open>Sessions\<close>

text \<open>
  What can happen to a session: a call of \<open>startStream\<close> for a device; the host
  settling the in-flight request at a position of \<open>pending\<close> (the host may answer
  the requests in any order); a run of \<open>getCameras\<close>; a call of \<open>updateSetting\<close>;
  the cleanup of the stream effect.
\<close>

datatype event =
    Open string
  | Arrive nat response
  | Cameras string response "exn + MediaDeviceInfo list"
  | Update "exn option" setting_key jsval
  | Cleanup

fun remove_nth :: "nat \<Rightarrow> 'a list \<Rightarrow> 'a list" where
  "remove_nth i xs = take i xs @ drop (Suc i) xs"

fun step :: "session \<Rightarrow> event \<Rightarrow> session" where
  "step s (Open d) = startStream_call d s"
| "step s (Arrive i r) =
     (if i < length (pending s)
      then startStream_resume (pending s ! i) r (s\<lparr>pending := remove_nth i (pending s)\<rparr>)
      else s)"
| "step s (Cameras captured permission inventory) = getCameras captured permission inventory s"
| "step s (Update verdict key v) =
     (case updateSetting verdict key v s of Inr s' \<Rightarrow> s' | Inl e \<Rightarrow> s)"
| "step s Cleanup = cleanup s"

definition run :: "session \<Rightarrow> event list \<Rightarrow> session" where
  "run s es = foldl step s es"

text \<open>The device ids of the calls of \<open>startStream\<close> in a trace, in order.\<close>

fun opens :: "event list \<Rightarrow> string list" where
  "opens [] = []"
| "opens (Open d # es) = d # opens es"
| "opens (e # es) = opens es"

text \<open>Every result arrives in the order the calls were made.\<close>

fun fifo :: "event list \<Rightarrow> bool" where
  "fifo [] = True"
| "fifo (Open d # es) = (d \<noteq> [] \<and> fifo es)"
| "fifo (Arrive i r # es) = (i = 0 \<and> fifo es)"
| "fifo (e # es) = fifo es"

text \<open>No call of \<open>startStream\<close> is made while a request is in flight.\<close>

fun sequential :: "session \<Rightarrow> event list \<Rightarrow> bool" where
  "sequential s [] = True"
| "sequential s (Open d # es) = (pending s = [] \<and> sequential (step s (Open d)) es)"
| "sequential s (e # es) = sequential (step s e) es"

text \<open>A stream is live while one of its tracks has not been stopped.\<close>

definition live :: "session \<Rightarrow> MediaStream \<Rightarrow> bool" where
  "live s st = (\<exists>i \<in> set [0 ..< length (stream_tracks st)]. TrackStop (stream_id st) i \<notin> set (calls s))"

definition live_streams :: "session \<Rightarrow> MediaStream list" where
  "live_streams s = filter (live s) (opened s)"

text \<open>
  The streams handed out to \<open>startStream\<close>: it never asks for an empty device id, and
  the permission request of \<open>getCameras\<close> names no device.
\<close>

definition open_streams :: "session \<Rightarrow> MediaStream list" where
  "open_streams s = filter (\<lambda>st. stream_device st \<noteq> []) (opened s)"

definition live_open_streams :: "session \<Rightarrow> MediaStream list" where
  "live_open_streams s = filter (live s) (open_streams s)"

section \<open>services/geminiService.ts\<close>

text \<open>
  \<open>process\<close> may be undefined, and \<open>process.env\<close> may be missing; otherwise it maps
  variable names to strings.
\<close>

type_synonym process = "(string \<rightharpoonup> string) option option"

text \<open>
  \<open>typeof process !== 'undefined' && process.env ? process.env.API_KEY : undefined\<close>
\<close>

fun apiKey_of :: "process \<Rightarrow> string option" where
  "apiKey_of None = None"
| "apiKey_of (Some None) = None"
| "apiKey_of (Some (Some env)) = env ''API_KEY''"

definition missing_key_message :: string where
  "missing_key_message =
     ''API Key is missing. Please set the API_KEY environment variable in your deployment settings.''"

record GenerateRequest =
  req_apiKey :: string
  req_model :: string
  req_contents :: string

text \<open>
  \<open>generateSystemScript\<close>. The two prompt templates are parameters (their text is not
  reproduced), and so is the external service, which answers a request with the
  generated text or throws. The result holds the requests made and the outcome.
\<close>

definition build_request ::
  "(ScriptGenerationParams \<Rightarrow> string) \<Rightarrow> (ScriptGenerationParams \<Rightarrow> string) \<Rightarrow>
   string \<Rightarrow> ScriptGenerationParams \<Rightarrow> GenerateRequest" where
  "build_request python_prompt native_prompt apiKey params =
     (let prompt = (if scriptType params = python then python_prompt params
                    else native_prompt params)
      in \<lparr>req_apiKey = apiKey, req_model = ''gemini-3-flash-preview'', req_contents = prompt\<rparr>)"

definition generateSystemScript ::
  "(ScriptGenerationParams \<Rightarrow> string) \<Rightarrow> (ScriptGenerationParams \<Rightarrow> string) \<Rightarrow>
   (GenerateRequest \<Rightarrow> exn + string) \<Rightarrow> process \<Rightarrow> ScriptGenerationParams \<Rightarrow>
   GenerateRequest list \<times> (exn + string)" where
  "generateSystemScript python_prompt native_prompt service proc params =
     (case apiKey_of proc of
        None \<Rightarrow> ([], Inl (JsError missing_key_message))
      | Some apiKey \<Rightarrow>
          if apiKey = [] then ([], Inl (JsError missing_key_message))
          else
            (let request = build_request python_prompt native_prompt apiKey params
             in case service request of
                  Inr text \<Rightarrow> ([request], Inr text)
                | Inl e \<Rightarrow> ([request], Inl e)))"

section \<open>Example inputs\<close>

definition zoom_caps :: CameraCapabilities where
  "zoom_caps = no_capabilities\<lparr>cap_zoom :=
     Some \<lparr>range_min = Num 1, range_max = Num 5, range_step = Num 1\<rparr>\<rparr>"

definition no_values :: MediaTrackSettings where
  "no_values = \<lparr>hw_focusMode = None, hw_focusDistance = None, hw_zoom = None,
     hw_brightness = None, hw_contrast = None\<rparr>"

definition plain_track :: MediaStreamTrack where
  "plain_track = \<lparr>track_caps = zoom_caps, track_settings = no_values\<rparr>"

definition camera_a :: CameraDevice where
  "camera_a = \<lparr>deviceId = ''a'', label = ''Cam A''\<rparr>"

text \<open>A session holding a one-track stream on device \<open>a\<close>.\<close>

definition active_a :: session where
  "active_a = run initial_session [Open ''a'', Arrive 0 (Granted [plain_track])]"

definition sample_params :: ScriptGenerationParams where
  "sample_params = \<lparr>os = LINUX, cameraName = ''Cam A'', param_settings = initial_settings,
     scriptType = native\<rparr>"

definition host_inventory :: "MediaDeviceInfo list" where
  "host_inventory =
     [\<lparr>info_deviceId = ''mic'', info_kind = audioinput, info_label = ''Microphone''\<rparr>,
      \<lparr>info_deviceId = ''0123456789'', info_kind = videoinput, info_label = []\<rparr>,
      \<lparr>info_deviceId = ''a'', info_kind = videoinput, info_label = ''Cam A''\<rparr>]"

definition wide_caps :: CameraCapabilities where
  "wide_caps = no_capabilities\<lparr>cap_zoom :=
     Some \<lparr>range_min = Num 1, range_max = Num 10, range_step = Num 1\<rparr>\<rparr>"

definition wide_track :: MediaStreamTrack where
  "wide_track = \<lparr>track_caps = wide_caps, track_settings = no_values\<rparr>"

text \<open>Two calls, the second answered first.\<close>

definition stale_race :: "event list" where
  "stale_race = [Open ''a'', Open ''b'', Arrive 1 (Granted [wide_track]), Arrive 0 (Granted [plain_track])]"

text \<open>Two calls, both made before any answer, answered in order.\<close>

definition overlap :: "event list" where
  "overlap = [Open ''a'', Open ''b'', Arrive 0 (Granted [plain_track]), Arrive 0 (Granted [wide_track])]"

text \<open>
  A session as the component runs it: the devices are listed, then two devices are
  opened one after the other, each call answered before the next is made.
\<close>

definition refresh_then_switch :: "event list" where
  "refresh_then_switch =
     [Cameras [] (Granted [plain_track]) (Inr host_inventory),
      Open ''0123456789'', Arrive 0 (Granted [plain_track]),
      Open ''a'', Arrive 0 (Granted [wide_track])]"

text \<open>
  A stream on \<open>a\<close> is held; calls for \<open>b\<close> and \<open>c\<close> are made before either is answered,
  and are answered in order.
\<close>

definition overlap_held :: "event list" where
  "overlap_held =
     [Open ''a'', Arrive 0 (Granted [plain_track]),
      Open ''b'', Open ''c'',
      Arrive 0 (Granted [plain_track]), Arrive 0 (Granted [wide_track])]"

section \<open>An invariant of sessions without overlapping calls\<close>

text \<open>
  The host numbers the streams it hands out in order; a live stream handed out to
  \<open>startStream\<close> is the one held in \<open>streamRef\<close>; while a request is in flight no
  such stream is live; at most one request is in flight.
\<close>

definition settled :: "session \<Rightarrow> bool" where
  "settled s =
     ((\<forall>i < length (opened s). stream_id (opened s ! i) = i) \<and>
      (\<forall>st \<in> set (opened s). stream_device st \<noteq> [] \<and> live s st \<longrightarrow> streamRef s = Some st) \<and>
      (pending s \<noteq> [] \<longrightarrow> (\<forall>st \<in> set (opened s). stream_device st \<noteq> [] \<longrightarrow> \<not> live s st)) \<and>
      length (pending s) \<le> 1)"

section \<open>Single-field updates\<close>

lemma get_set_same: "get_setting k (set_setting k v s) = v"
  by (cases k) simp_all

lemma get_set_other: "k' \<noteq> k \<Longrightarrow> get_setting k' (set_setting k v s) = get_setting k' s"
  by (cases k; cases k') simp_all

lemma applyConstraint_settings:
  "applyConstraint verdict key v s = Inr s' \<Longrightarrow> settings s' = settings s"
  by (auto simp: applyConstraint_def Let_def split: option.splits list.splits)

lemma active_a_eval:
  "active_a = initial_session\<lparr>
      capabilities := zoom_caps,
      settings := reconcile initial_settings zoom_caps no_values,
      streamRef := Some \<lparr>stream_id = 0, stream_device = ''a'', stream_tracks = [plain_track]\<rparr>,
      videoRef := Some (Some \<lparr>stream_id = 0, stream_device = ''a'', stream_tracks = [plain_track]\<rparr>),
      calls := [GetUserMedia ''a''],
      opened := [\<lparr>stream_id = 0, stream_device = ''a'', stream_tracks = [plain_track]\<rparr>]\<rparr>"
  by (simp add: active_a_def run_def startStream_call_def startStream_resume_def
        initial_session_def plain_track_def Let_def)

text \<open>
  C9. \<open>updateSetting\<close> with key \<open>k\<close> and value \<open>v\<close> leaves a settings model that has
  \<open>v\<close> at field \<open>k\<close> and is unchanged at every other field.
\<close>

theorem updateSetting_frame:
  assumes "updateSetting verdict k v s = Inr s'"
  shows "get_setting k (settings s') = v \<and>
         (\<forall>k'. k' \<noteq> k \<longrightarrow> get_setting k' (settings s') = get_setting k' (settings s))"
proof -
  from assms have "settings s' = set_setting k v (settings s)"
    unfolding updateSetting_def by (auto dest: applyConstraint_settings)
  then show ?thesis by (simp add: get_set_same get_set_other)
qed

theorem updateSetting_frame_witness:
  "updateSetting None Zoom (Number (Num 3)) initial_session =
     Inr (initial_session\<lparr>settings := initial_settings\<lparr>zoom := Number (Num 3)\<rparr>\<rparr>) \<and>
   get_setting Zoom (settings (initial_session\<lparr>settings := initial_settings\<lparr>zoom := Number (Num 3)\<rparr>\<rparr>))
     = Number (Num 3) \<and>
   get_setting Brightness (settings (initial_session\<lparr>settings := initial_settings\<lparr>zoom := Number (Num 3)\<rparr>\<rparr>))
     = Number (Num 100)"
proof -
  have run: "updateSetting None Zoom (Number (Num 3)) initial_session =
     Inr (initial_session\<lparr>settings := initial_settings\<lparr>zoom := Number (Num 3)\<rparr>\<rparr>)"
    by (simp add: updateSetting_def applyConstraint_def initial_session_def)
  from updateSetting_frame [OF run] run show ?thesis
    by (simp add: initial_session_def initial_settings_def)
qed

text \<open>
  C4. A single-field update against a held stream that the hardware rejects throws
  nothing to the caller: the failure becomes a console warning, the settings model
  holds the requested value at the field, and the stream stays as it is (the same
  handle is held, no request is in flight that was not before, and the only host call
  added, if any, is the \<open>applyConstraints\<close> itself: no track is stopped and no stream
  is requested).
\<close>

theorem rejected_constraint_absorbed:
  assumes "streamRef s = Some st"
  shows "\<exists>s'. updateSetting (Some e) k v s = Inr s' \<and>
           get_setting k (settings s') = v \<and>
           streamRef s' = Some st \<and> pending s' = pending s \<and> opened s' = opened s \<and>
           error s' = error s \<and>
           filter (\<lambda>c. \<not> is_apply c) (calls s') = filter (\<lambda>c. \<not> is_apply c) (calls s) \<and>
           console s' = console s @ [warning_message]"
  using assms
  by (cases "stream_tracks st")
     (simp_all add: updateSetting_def applyConstraint_def get_set_same Let_def)

theorem rejected_constraint_absorbed_witness:
  "streamRef active_a = Some \<lparr>stream_id = 0, stream_device = ''a'', stream_tracks = [plain_track]\<rparr> \<and>
   (\<exists>s'. updateSetting (Some (JsError ''OverconstrainedError'')) Zoom (Number (Num 9)) active_a = Inr s' \<and>
      get_setting Zoom (settings s') = Number (Num 9) \<and>
      streamRef s' = Some \<lparr>stream_id = 0, stream_device = ''a'', stream_tracks = [plain_track]\<rparr> \<and>
      calls s' = [GetUserMedia ''a'', ApplyConstraints 0 0 Zoom (Number (Num 9))])"
proof -
  let ?st = "\<lparr>stream_id = 0, stream_device = ''a'', stream_tracks = [plain_track]\<rparr>"
  have h: "streamRef active_a = Some ?st" by (simp add: active_a_eval)
  from rejected_constraint_absorbed [OF h, of "JsError ''OverconstrainedError''" Zoom "Number (Num 9)"]
  obtain s' where s':
      "updateSetting (Some (JsError ''OverconstrainedError'')) Zoom (Number (Num 9)) active_a = Inr s'"
      "get_setting Zoom (settings s') = Number (Num 9)" "streamRef s' = Some ?st"
    by blast
  from s'(1) have "calls s' = [GetUserMedia ''a'', ApplyConstraints 0 0 Zoom (Number (Num 9))]"
    by (auto simp: updateSetting_def applyConstraint_def active_a_eval Let_def)
  with h s' show ?thesis by blast
qed

section \<open>Reconciliation\<close>

lemma reconcile_get:
  "get_setting k (reconcile prev caps h) =
     (case k of
        FocusMode \<Rightarrow> Str (js_or_str (hw_focusMode h) ''continuous'')
      | FocusDistance \<Rightarrow> Number (js_or_lit (js_or (hw_focusDistance h)
            (map_option range_min (cap_focusDistance caps))) (Num 0))
      | Zoom \<Rightarrow> Number (js_or_lit (js_or (hw_zoom h)
            (map_option range_min (cap_zoom caps))) (Num 1))
      | Brightness \<Rightarrow> Number (js_or_lit (js_or (hw_brightness h)
            (map_option range_min (cap_brightness caps))) (Num 100))
      | Contrast \<Rightarrow> Number (js_or_lit (js_or (hw_contrast h)
            (map_option range_min (cap_contrast caps))) (Num 100)))"
  by (cases k) (simp_all add: reconcile_def)

lemma reconcile_reported:
  "hw_of k h = Some v \<Longrightarrow> truthy_val v \<Longrightarrow> get_setting k (reconcile prev caps h) = v"
  by (cases k) (auto simp: reconcile_get)

lemma reconcile_minimum:
  "hw_of k h = None \<Longrightarrow> cap_of k caps = Some r \<Longrightarrow> truthy (range_min r) \<Longrightarrow>
   get_setting k (reconcile prev caps h) = Number (range_min r)"
  by (cases k) (auto simp: reconcile_get)

lemma reconcile_literal:
  "hw_of k h = None \<Longrightarrow> cap_of k caps = None \<Longrightarrow>
   get_setting k (reconcile prev caps h) = literal_default k"
  by (cases k) (auto simp: reconcile_get)




text \<open>
  C3, as the code has it. For every key of the settings model, reconciliation takes
  the value the hardware reports when it reports a truthy one (a nonzero number, a
  non-empty focus mode); with no reported value, the minimum of the capability range
  when there is a range with a nonzero minimum; with no reported value and no range,
  the fixed literal of that field (continuous, 0, 1, 100, 100), whatever the prior
  in-memory value.
\<close>

theorem reconcile_precedence:
  "(\<forall>v. hw_of k h = Some v \<and> truthy_val v \<longrightarrow> get_setting k (reconcile prev caps h) = v) \<and>
   (\<forall>r. hw_of k h = None \<and> cap_of k caps = Some r \<and> truthy (range_min r) \<longrightarrow>
        get_setting k (reconcile prev caps h) = Number (range_min r)) \<and>
   (hw_of k h = None \<and> cap_of k caps = None \<longrightarrow>
        get_setting k (reconcile prev caps h) = literal_default k)"
  by (simp add: reconcile_reported reconcile_minimum reconcile_literal)

theorem reconcile_precedence_witness:
  "get_setting Zoom (reconcile initial_settings zoom_caps (no_values\<lparr>hw_zoom := Some (Num 3)\<rparr>))
     = Number (Num 3) \<and>
   get_setting Zoom (reconcile (initial_settings\<lparr>zoom := Number (Num 4)\<rparr>) zoom_caps no_values)
     = Number (Num 1) \<and>
   get_setting Contrast (reconcile (initial_settings\<lparr>contrast := Number (Num 50)\<rparr>) zoom_caps no_values)
     = Number (Num 100)"
  using reconcile_precedence [of Zoom "no_values\<lparr>hw_zoom := Some (Num 3)\<rparr>" initial_settings zoom_caps]
        reconcile_precedence [of Zoom no_values "initial_settings\<lparr>zoom := Number (Num 4)\<rparr>" zoom_caps]
        reconcile_precedence [of Contrast no_values "initial_settings\<lparr>contrast := Number (Num 50)\<rparr>" zoom_caps]
  by (simp add: no_values_def zoom_caps_def no_capabilities_def)

text \<open>
  C3 as stated fails: with no capability range and no hardware value for contrast and
  a prior in-memory contrast of 50, the reconciled contrast is 100.
\<close>

theorem reconcile_precedence_counterexample:
  "hw_of Contrast no_values = None \<and> cap_of Contrast no_capabilities = None \<and>
   get_setting Contrast (initial_settings\<lparr>contrast := Number (Num 50)\<rparr>) = Number (Num 50) \<and>
   get_setting Contrast
     (reconcile (initial_settings\<lparr>contrast := Number (Num 50)\<rparr>) no_capabilities no_values)
     = Number (Num 100)"
  by (simp add: no_values_def no_capabilities_def reconcile_def initial_settings_def)

text \<open>
  C8. Reconciliation is deterministic: two runs of the block, in sessions that agree
  on the prior settings model and on streams whose first track has the same
  capabilities and the same reported values, leave equal settings models, whatever
  else differs between the two sessions (devices, held stream, requests in flight,
  host log): the result is a function of the prior model, the capabilities and the
  reported values.
\<close>

theorem reconcile_deterministic:
  assumes "settings s1 = settings s2"
    and "track_caps t1 = track_caps t2"
    and "track_settings t1 = track_settings t2"
  shows "settings (startStream_resume d1 (Granted (t1 # ts1)) s1) =
         settings (startStream_resume d2 (Granted (t2 # ts2)) s2) \<and>
         settings (startStream_resume d1 (Granted (t1 # ts1)) s1) =
           reconcile (settings s1) (track_caps t1) (track_settings t1)"
  using assms by (simp add: startStream_resume_def Let_def)

theorem reconcile_deterministic_witness:
  "settings (startStream_resume ''a'' (Granted [plain_track]) initial_session) =
   settings (startStream_resume ''b'' (Granted [plain_track, plain_track])
      (active_a\<lparr>settings := initial_settings\<rparr>))"
proof -
  have "settings initial_session = settings (active_a\<lparr>settings := initial_settings\<rparr>)"
    by (simp add: initial_session_def)
  from reconcile_deterministic [OF this, of plain_track plain_track "''a''" "[]" "''b''" "[plain_track]"]
  show ?thesis by simp
qed

section \<open>Device enumeration\<close>

text \<open>
  C5, as the code has it. When the permission request is refused, \<open>getCameras\<close> sets
  the permission error message (a message other than the one of a failed stream
  open), produces no device, and leaves the device sequence, the selection and the
  host's streams as they were before the call.
\<close>

theorem getCameras_refused:
  "error (getCameras captured (Rejected e) inventory s) = Some permission_message \<and>
   devices (getCameras captured (Rejected e) inventory s) = devices s \<and>
   selectedDeviceId (getCameras captured (Rejected e) inventory s) = selectedDeviceId s \<and>
   opened (getCameras captured (Rejected e) inventory s) = opened s \<and>
   calls (getCameras captured (Rejected e) inventory s) = calls s @ [GetUserMediaVideo] \<and>
   permission_message \<noteq> stream_message"
  by (simp add: getCameras_def Let_def permission_message_def stream_message_def)

text \<open>
  C5 as stated fails: a refused refresh in a session that already lists a device
  retains that device.
\<close>

theorem getCameras_refused_counterexample:
  "devices (getCameras [] (Rejected (JsError ''NotAllowedError'')) (Inr [])
      (initial_session\<lparr>devices := [camera_a]\<rparr>)) = [camera_a] \<and> [camera_a] \<noteq> []"
  by (simp add: getCameras_def Let_def)

lemma getCameras_devices:
  "devices (getCameras captured (Granted ts) (Inr ds) s) = videoDevices ds"
  by (simp add: getCameras_def Let_def split: list.splits)

text \<open>
  C10. Every device that enumeration returns comes from a host entry of video-input
  kind, with that entry's device id, and has a non-empty label: the host's label, or,
  when the host's label is empty, \<open>Camera\<close> and a space, the first five characters of
  the device id, and three dots.
\<close>

theorem videoDevices_labelled:
  "\<forall>d \<in> set (videoDevices ds). label d \<noteq> [] \<and>
     (\<exists>device \<in> set ds. info_kind device = videoinput \<and> deviceId d = info_deviceId device \<and>
        label d = (if info_label device = [] then ''Camera '' @ take 5 (info_deviceId device) @ ''...''
                   else info_label device))"
  by (auto simp: videoDevices_def device_label_def)

theorem videoDevices_labelled_witness:
  "videoDevices host_inventory =
     [\<lparr>deviceId = ''0123456789'', label = ''Camera 01234...''\<rparr>, camera_a] \<and>
   label (hd (videoDevices host_inventory)) \<noteq> [] \<and>
   label (last (videoDevices host_inventory)) \<noteq> []"
proof -
  have ev: "videoDevices host_inventory =
      [\<lparr>deviceId = ''0123456789'', label = ''Camera 01234...''\<rparr>, camera_a]"
    by (simp add: videoDevices_def host_inventory_def device_label_def camera_a_def)
  from videoDevices_labelled [of host_inventory] ev show ?thesis by auto
qed

section \<open>Script generation\<close>

text \<open>
  C6. With no service credential (no \<open>process\<close>, no \<open>process.env\<close>, no \<open>API_KEY\<close> or
  an empty one), \<open>generateSystemScript\<close> fails before any request to the service, with
  the error whose message is the missing-key text, which starts with
  \<open>API Key is missing\<close>. With a credential and a failing service call, the service's
  error is thrown on to the caller as it is, after that one request.
\<close>

theorem generateSystemScript_errors:
  "((apiKey_of proc = None \<or> apiKey_of proc = Some []) \<longrightarrow>
      generateSystemScript pp np service proc params = ([], Inl (JsError missing_key_message))) \<and>
   (\<forall>key e. apiKey_of proc = Some key \<and> key \<noteq> [] \<and>
        service (build_request pp np key params) = Inl e \<longrightarrow>
      generateSystemScript pp np service proc params = ([build_request pp np key params], Inl e)) \<and>
   message (JsError missing_key_message) = missing_key_message \<and>
   take 18 missing_key_message = ''API Key is missing''"
  by (auto simp: generateSystemScript_def missing_key_message_def)

theorem generateSystemScript_errors_witness:
  "generateSystemScript (\<lambda>p. ''py'') (\<lambda>p. ''sh'') (\<lambda>rq. Inl (JsError ''503''))
       (Some (Some Map.empty)) sample_params
     = ([], Inl (JsError missing_key_message)) \<and>
   generateSystemScript (\<lambda>p. ''py'') (\<lambda>p. ''sh'') (\<lambda>rq. Inl (JsError ''503''))
       (Some (Some [''API_KEY'' \<mapsto> ''k''])) sample_params
     = ([\<lparr>req_apiKey = ''k'', req_model = ''gemini-3-flash-preview'', req_contents = ''sh''\<rparr>],
        Inl (JsError ''503''))"
  using generateSystemScript_errors [of "Some (Some Map.empty)" "\<lambda>p. ''py''" "\<lambda>p. ''sh''"
          "\<lambda>rq. Inl (JsError ''503'')" sample_params]
        generateSystemScript_errors [of "Some (Some [''API_KEY'' \<mapsto> ''k''])" "\<lambda>p. ''py''" "\<lambda>p. ''sh''"
          "\<lambda>rq. Inl (JsError ''503'')" sample_params]
  by (simp add: build_request_def sample_params_def)

section \<open>Stream lifecycle\<close>

lemma run_Nil: "run s [] = s"
  by (simp add: run_def)

lemma run_Cons: "run s (e # es) = run (step s e) es"
  by (simp add: run_def)

lemma run_append: "run s (es @ es') = run (run s es) es'"
  by (simp add: run_def)

lemma pending_stop_tracks: "pending (stop_tracks st s) = pending s"
  by (simp add: stop_tracks_def)

lemma pending_startStream_call:
  "pending (startStream_call d s) = (if d = [] then pending s else pending s @ [d])"
  by (simp add: startStream_call_def Let_def pending_stop_tracks split: option.splits)

lemma pending_startStream_resume: "pending (startStream_resume d r s) = pending s"
  by (simp add: startStream_resume_def Let_def split: response.splits list.splits)

lemma pending_step_Arrive0:
  "pending (step s (Arrive 0 r)) = tl (pending s)"
  by (cases "pending s") (simp_all add: pending_startStream_resume)

lemma pending_getCameras: "pending (getCameras captured permission inventory s) = pending s"
  by (simp add: getCameras_def Let_def split: response.splits sum.splits list.splits)

lemma updateSetting_frame_rest:
  "\<exists>s'. updateSetting verdict key v s = Inr s' \<and> pending s' = pending s \<and>
      opened s' = opened s \<and> streamRef s' = streamRef s \<and>
      (calls s' = calls s \<or> (\<exists>sid i. calls s' = calls s @ [ApplyConstraints sid i key v]))"
  by (simp add: updateSetting_def applyConstraint_def Let_def split: option.splits list.splits)

lemma pending_step_Update:
  "pending (case updateSetting verdict key v s of Inr s' \<Rightarrow> s' | Inl e \<Rightarrow> s) = pending s"
  using updateSetting_frame_rest [of verdict key v s] by auto

lemma pending_cleanup: "pending (cleanup s) = pending s"
  by (simp add: cleanup_def pending_stop_tracks split: option.splits)

lemma pending_fifo:
  "fifo es \<Longrightarrow> \<exists>k. pending (run s es) = drop k (pending s @ opens es)"
proof (induction es arbitrary: s)
  case Nil
  have "pending s = drop 0 (pending s @ opens [])" by simp
  then show ?case unfolding run_Nil by blast
next
  case (Cons e es)
  show ?case
  proof (cases e)
    case (Open d)
    with Cons.prems have d: "d \<noteq> []" and f: "fifo es" by simp_all
    from Cons.IH [OF f, of "step s e"] obtain k
      where "pending (run (step s e) es) = drop k (pending (step s e) @ opens es)" by blast
    then have "pending (run s (e # es)) = drop k (pending s @ opens (e # es))"
      using Open d by (simp add: run_Cons pending_startStream_call)
    then show ?thesis by blast
  next
    case (Arrive i r)
    with Cons.prems have i: "i = 0" and f: "fifo es" by simp_all
    from Cons.IH [OF f, of "step s e"] obtain k
      where k: "pending (run (step s e) es) = drop k (pending (step s e) @ opens es)" by blast
    have "pending (step s e) = tl (pending s)"
      using Arrive i pending_step_Arrive0 by simp
    then have eq: "pending (step s e) @ opens es =
        drop (if pending s = [] then 0 else 1) (pending s @ opens (e # es))"
      using Arrive by (cases "pending s") simp_all
    have "pending (run s (e # es)) =
        drop k (drop (if pending s = [] then 0 else 1) (pending s @ opens (e # es)))"
      using k eq by (simp only: run_Cons)
    then have "pending (run s (e # es)) =
        drop (k + (if pending s = [] then 0 else 1)) (pending s @ opens (e # es))"
      by (simp only: drop_drop)
    then show ?thesis by blast
  next
    case (Cameras captured permission inventory)
    with Cons.prems have f: "fifo es" by simp
    from Cons.IH [OF f, of "step s e"] obtain k
      where k: "pending (run (step s e) es) = drop k (pending (step s e) @ opens es)" by blast
    have "pending (step s e) = pending s" unfolding Cameras by (simp only: step.simps pending_getCameras)
    with k have "pending (run s (e # es)) = drop k (pending s @ opens es)"
      by (simp only: run_Cons)
    moreover have "opens (e # es) = opens es" unfolding Cameras by simp
    ultimately have "pending (run s (e # es)) = drop k (pending s @ opens (e # es))" by simp
    then show ?thesis by blast
  next
    case (Update verdict key v)
    with Cons.prems have f: "fifo es" by simp
    from Cons.IH [OF f, of "step s e"] obtain k
      where k: "pending (run (step s e) es) = drop k (pending (step s e) @ opens es)" by blast
    have "pending (step s e) = pending s" unfolding Update by (simp only: step.simps pending_step_Update)
    with k have "pending (run s (e # es)) = drop k (pending s @ opens es)"
      by (simp only: run_Cons)
    moreover have "opens (e # es) = opens es" unfolding Update by simp
    ultimately have "pending (run s (e # es)) = drop k (pending s @ opens (e # es))" by simp
    then show ?thesis by blast
  next
    case Cleanup
    with Cons.prems have f: "fifo es" by simp
    from Cons.IH [OF f, of "step s e"] obtain k
      where k: "pending (run (step s e) es) = drop k (pending (step s e) @ opens es)" by blast
    have "pending (step s e) = pending s" unfolding Cleanup by (simp only: step.simps pending_cleanup)
    with k have "pending (run s (e # es)) = drop k (pending s @ opens es)"
      by (simp only: run_Cons)
    moreover have "opens (e # es) = opens es" unfolding Cleanup by simp
    ultimately have "pending (run s (e # es)) = drop k (pending s @ opens (e # es))" by simp
    then show ?thesis by blast
  qed
qed

lemma last_in_flight:
  assumes "pending s = []" and "fifo es" and "pending (run s es) = [d]"
  shows "d = last (opens es)"
proof -
  from pending_fifo [OF assms(2), of s] assms(1,3)
  obtain k where k: "[d] = drop k (opens es)" by auto
  then have "k < length (opens es)" by (cases "k < length (opens es)") auto
  then have "last (drop k (opens es)) = last (opens es)" by simp
  with k show ?thesis by (metis last.simps)
qed

lemma resume_granted:
  "streamRef (startStream_resume d (Granted (t # ts)) s) =
       Some \<lparr>stream_id = length (opened s), stream_device = d, stream_tracks = t # ts\<rparr> \<and>
   capabilities (startStream_resume d (Granted (t # ts)) s) = track_caps t \<and>
   settings (startStream_resume d (Granted (t # ts)) s) =
       reconcile (settings s) (track_caps t) (track_settings t) \<and>
   error (startStream_resume d (Granted (t # ts)) s) = None"
  by (simp add: startStream_resume_def Let_def)

text \<open>
  C1, as the code has it. \<open>startStream\<close> has no request sequence number: every result
  that arrives is applied. When the results arrive in the order of the calls (each
  call with a non-empty device id, starting with no request in flight) and one
  request is left in flight, that request is the last call's; when its result arrives
  with a stream, no request is left, and the session holds a stream on the device of
  the last call, with that stream's capabilities, the settings reconciled from it and
  no error.
\<close>

theorem last_call_wins_in_order:
  assumes "pending s = []" and "fifo es" and "pending (run s es) = [d]"
  shows "d = last (opens es) \<and>
         pending (run s (es @ [Arrive 0 (Granted (t # ts))])) = [] \<and>
         map_option stream_device (streamRef (run s (es @ [Arrive 0 (Granted (t # ts))]))) =
           Some (last (opens es)) \<and>
         capabilities (run s (es @ [Arrive 0 (Granted (t # ts))])) = track_caps t \<and>
         settings (run s (es @ [Arrive 0 (Granted (t # ts))])) =
           reconcile (settings (run s es)) (track_caps t) (track_settings t) \<and>
         error (run s (es @ [Arrive 0 (Granted (t # ts))])) = None"
proof -
  have d: "d = last (opens es)" using assms by (rule last_in_flight)
  have "run s (es @ [Arrive 0 (Granted (t # ts))]) =
      startStream_resume d (Granted (t # ts)) ((run s es)\<lparr>pending := []\<rparr>)"
    using assms(3) by (simp add: run_append run_Cons run_Nil)
  then show ?thesis using d by (simp add: resume_granted pending_startStream_resume)
qed

theorem last_call_wins_in_order_witness:
  "map_option stream_device (streamRef (run initial_session overlap)) = Some ''b'' \<and>
   capabilities (run initial_session overlap) = wide_caps"
proof -
  have p0: "pending initial_session = []" by (simp add: initial_session_def)
  have f: "fifo [Open ''a'', Open ''b'', Arrive 0 (Granted [plain_track])]" by simp
  have p: "pending (run initial_session [Open ''a'', Open ''b'', Arrive 0 (Granted [plain_track])]) = [''b'']"
    by (simp add: run_def pending_startStream_call pending_startStream_resume initial_session_def)
  from last_call_wins_in_order [OF p0 f p, of wide_track "[]"]
  show ?thesis by (simp add: overlap_def wide_track_def)
qed

text \<open>
  C1 as stated fails: after calls for \<open>a\<close> and then \<open>b\<close>, with the result for \<open>b\<close>
  arriving before the result for \<open>a\<close>, the session ends holding the stream and the
  capabilities of \<open>a\<close>.
\<close>

theorem last_call_wins_counterexample:
  "opens stale_race = [''a'', ''b''] \<and> pending (run initial_session stale_race) = [] \<and>
   map_option stream_device (streamRef (run initial_session stale_race)) = Some ''a'' \<and>
   capabilities (run initial_session stale_race) = zoom_caps \<and> zoom_caps \<noteq> wide_caps"
  by (simp add: stale_race_def run_def startStream_call_def startStream_resume_def
      initial_session_def Let_def plain_track_def wide_track_def zoom_caps_def wide_caps_def
      no_capabilities_def)

text \<open>
  A request in flight never names an empty device, so every stream handed out to
  \<open>startStream\<close> is bound to a non-empty device id and counts among \<open>open_streams\<close>.
\<close>

lemma pending_step_named:
  assumes "[] \<notin> set (pending s)"
  shows "[] \<notin> set (pending (step s e))"
proof (cases e)
  case (Open d)
  then show ?thesis using assms by (simp add: pending_startStream_call)
next
  case (Arrive i r)
  have "set (remove_nth i (pending s)) \<subseteq> set (pending s)"
    by (auto dest: in_set_takeD in_set_dropD)
  then show ?thesis using assms Arrive
    by (auto simp: pending_startStream_resume simp del: remove_nth.simps)
next
  case (Cameras captured permission inventory)
  then show ?thesis using assms by (simp add: pending_getCameras)
next
  case (Update verdict key v)
  have "pending (step s e) = pending s" unfolding Update by (simp only: step.simps pending_step_Update)
  then show ?thesis using assms by simp
next
  case Cleanup
  then show ?thesis using assms by (simp add: pending_cleanup)
qed

lemma pending_run_named: "[] \<notin> set (pending s) \<Longrightarrow> [] \<notin> set (pending (run s es))"
  by (induction es arbitrary: s) (simp_all add: run_Nil run_Cons pending_step_named del: step.simps)

lemma live_calls: "calls s' = calls s \<Longrightarrow> live s' st = live s st"
  by (simp add: live_def)

lemma live_stops:
  "(\<And>sid i. TrackStop sid i \<in> set (calls s') \<longleftrightarrow> TrackStop sid i \<in> set (calls s)) \<Longrightarrow>
   live s' st = live s st"
  by (simp add: live_def)

lemma live_mono: "set (calls s) \<subseteq> set (calls s') \<Longrightarrow> live s' st \<Longrightarrow> live s st"
  by (auto simp: live_def)

lemma calls_startStream_call:
  "streamRef s = Some st \<Longrightarrow> d \<noteq> [] \<Longrightarrow>
   calls (startStream_call d s) =
     calls s @ map (TrackStop (stream_id st)) [0 ..< length (stream_tracks st)] @ [GetUserMedia d]"
  by (simp add: startStream_call_def stop_tracks_def)

lemma calls_startStream_call_subset: "set (calls s) \<subseteq> set (calls (startStream_call d s))"
  by (auto simp: startStream_call_def stop_tracks_def Let_def split: option.splits)

lemma held_not_live:
  assumes "streamRef s = Some st" and "d \<noteq> []"
  shows "\<not> live (startStream_call d s) st"
  unfolding live_def calls_startStream_call [OF assms] by auto

lemma startStream_call_frame:
  "opened (startStream_call d s) = opened s \<and> streamRef (startStream_call d s) = streamRef s"
  by (simp add: startStream_call_def stop_tracks_def Let_def split: option.splits)

lemma distinct_opened:
  assumes "\<forall>i < length xs. stream_id (xs ! i) = i"
  shows "distinct xs"
proof -
  have "map stream_id xs = [0 ..< length xs]"
    using assms by (intro nth_equalityI) simp_all
  then have "distinct (map stream_id xs)" by simp
  then show ?thesis by (simp add: distinct_map)
qed

lemma filter_at_most_one:
  assumes "distinct xs" and "\<forall>x \<in> set xs. P x \<longrightarrow> x = a"
  shows "length (filter P xs) \<le> 1"
proof -
  have d: "distinct (filter P xs)" using assms(1) by simp
  have "set (filter P xs) \<subseteq> {a}" using assms(2) by auto
  then have "card (set (filter P xs)) \<le> card {a}" by (intro card_mono) simp_all
  moreover have "card (set (filter P xs)) = length (filter P xs)" using d by (rule distinct_card)
  ultimately show ?thesis by simp
qed

lemma live_open_streams_filter:
  "live_open_streams s = filter (\<lambda>st. stream_device st \<noteq> [] \<and> live s st) (opened s)"
  by (simp add: live_open_streams_def open_streams_def)

lemma settled_at_most_one: "settled s \<Longrightarrow> length (live_open_streams s) \<le> 1"
proof (cases "streamRef s")
  case None
  assume "settled s"
  with None have "\<forall>st \<in> set (opened s). \<not> (stream_device st \<noteq> [] \<and> live s st)"
    by (auto simp: settled_def)
  then have "live_open_streams s = []" by (simp add: live_open_streams_filter)
  then show ?thesis by simp
next
  case (Some st)
  assume s: "settled s"
  then have "distinct (opened s)" by (intro distinct_opened) (simp add: settled_def)
  moreover from s Some have "\<forall>x \<in> set (opened s). stream_device x \<noteq> [] \<and> live s x \<longrightarrow> x = st"
    by (auto simp: settled_def)
  ultimately show ?thesis unfolding live_open_streams_filter by (rule filter_at_most_one)
qed

lemma settled_initial: "settled initial_session"
  by (simp add: settled_def initial_session_def)

lemma settled_call:
  assumes "settled s" and "pending s = []"
  shows "settled (startStream_call d s)"
proof (cases "d = []")
  case True
  then show ?thesis using assms(1) by (simp add: startStream_call_def)
next
  case False
  have none: "\<not> live (startStream_call d s) x"
    if x: "x \<in> set (opened s)" and dev: "stream_device x \<noteq> []" for x
  proof
    assume l: "live (startStream_call d s) x"
    then have "live s x" using calls_startStream_call_subset by (rule live_mono [rotated])
    with assms(1) x dev have "streamRef s = Some x" by (simp add: settled_def)
    from held_not_live [OF this False] l show False by simp
  qed
  show ?thesis
    using assms False none
    by (auto simp: settled_def startStream_call_frame pending_startStream_call)
qed

lemma resume_frame:
  "calls (startStream_resume d r s) = calls s"
  by (simp add: startStream_resume_def Let_def split: response.splits list.splits)

lemma resume_rejected_frame:
  "opened (startStream_resume d (Rejected e) s) = opened s \<and>
   streamRef (startStream_resume d (Rejected e) s) = streamRef s"
  by (simp add: startStream_resume_def)

lemma resume_granted_frame:
  "opened (startStream_resume d (Granted ts) s) =
     opened s @ [\<lparr>stream_id = length (opened s), stream_device = d, stream_tracks = ts\<rparr>] \<and>
   streamRef (startStream_resume d (Granted ts) s) =
     Some \<lparr>stream_id = length (opened s), stream_device = d, stream_tracks = ts\<rparr>"
  by (simp add: startStream_resume_def Let_def split: list.splits)

lemma settled_arrive:
  assumes "settled s"
  shows "settled (step s (Arrive i r))"
proof (cases "i < length (pending s)")
  case False
  then show ?thesis using assms by simp
next
  case True
  with assms have p: "pending s \<noteq> []" and i: "remove_nth i (pending s) = []"
    by (auto simp: settled_def le_Suc_eq length_Suc_conv)
  let ?s0 = "s\<lparr>pending := remove_nth i (pending s)\<rparr>"
  let ?s' = "startStream_resume (pending s ! i) r ?s0"
  have st: "step s (Arrive i r) = ?s'" using True by simp
  have pend: "pending ?s' = []" using i by (simp add: pending_startStream_resume del: remove_nth.simps)
  have lv: "live (startStream_resume d' r' (s\<lparr>pending := p\<rparr>)) x = live s x" for x d' r' p
    by (rule live_calls) (simp add: resume_frame)
  from assms p have dead: "\<forall>x \<in> set (opened s). stream_device x \<noteq> [] \<longrightarrow> \<not> live s x"
    by (simp add: settled_def)
  have ids: "\<forall>j < length (opened s). stream_id (opened s ! j) = j"
    using assms by (simp add: settled_def)
  show ?thesis
  proof (cases r)
    case (Rejected e)
    then show ?thesis
      unfolding st using dead ids pend
      by (auto simp: settled_def resume_rejected_frame lv simp del: remove_nth.simps)
  next
    case (Granted ts)
    have "\<forall>j < Suc (length (opened s)).
        stream_id ((opened s @ [\<lparr>stream_id = length (opened s), stream_device = pending s ! i,
            stream_tracks = ts\<rparr>]) ! j) = j"
      using ids by (auto simp: nth_append less_Suc_eq)
    then show ?thesis
      unfolding st using dead pend Granted
      by (auto simp: settled_def resume_granted_frame lv simp del: remove_nth.simps)
  qed
qed

lemma getCameras_frame:
  "streamRef (getCameras captured permission inventory s) = streamRef s \<and>
   (opened (getCameras captured permission inventory s) = opened s \<or>
    (\<exists>ts. opened (getCameras captured permission inventory s) =
       opened s @ [\<lparr>stream_id = length (opened s), stream_device = [], stream_tracks = ts\<rparr>]))"
  by (simp add: getCameras_def Let_def split: response.splits sum.splits list.splits)

lemma live_getCameras: "live (getCameras captured permission inventory s) st = live s st"
  by (rule live_stops)
     (auto simp: getCameras_def Let_def split: response.splits sum.splits list.splits)

lemma settled_cameras:
  assumes "settled s"
  shows "settled (getCameras captured permission inventory s)"
proof -
  let ?s' = "getCameras captured permission inventory s"
  have ids: "\<forall>j < length (opened s). stream_id (opened s ! j) = j"
    using assms by (simp add: settled_def)
  from getCameras_frame [of captured permission inventory s]
  have ref: "streamRef ?s' = streamRef s"
    and op: "opened ?s' = opened s \<or>
      (\<exists>ts. opened ?s' = opened s @ [\<lparr>stream_id = length (opened s), stream_device = [], stream_tracks = ts\<rparr>])"
    by simp_all
  from op show ?thesis
  proof
    assume "opened ?s' = opened s"
    then show ?thesis
      using assms ref by (simp add: settled_def live_getCameras pending_getCameras)
  next
    assume "\<exists>ts. opened ?s' =
      opened s @ [\<lparr>stream_id = length (opened s), stream_device = [], stream_tracks = ts\<rparr>]"
    then obtain ts where o: "opened ?s' =
      opened s @ [\<lparr>stream_id = length (opened s), stream_device = [], stream_tracks = ts\<rparr>]"
      by blast
    have "\<forall>j < Suc (length (opened s)).
        stream_id ((opened s @ [\<lparr>stream_id = length (opened s), stream_device = [],
            stream_tracks = ts\<rparr>]) ! j) = j"
      using ids by (auto simp: nth_append less_Suc_eq)
    then show ?thesis
      using assms ref o by (simp add: settled_def live_getCameras pending_getCameras)
  qed
qed

lemma settled_update:
  assumes "settled s"
  shows "settled (step s (Update verdict key v))"
proof -
  from updateSetting_frame_rest [of verdict key v s] obtain s'
    where s': "updateSetting verdict key v s = Inr s'" "pending s' = pending s"
      "opened s' = opened s" "streamRef s' = streamRef s"
      "calls s' = calls s \<or> (\<exists>sid i. calls s' = calls s @ [ApplyConstraints sid i key v])"
    by blast
  have "live s' st = live s st" for st
    by (rule live_stops) (use s'(5) in auto)
  then show ?thesis using assms s' by (simp add: settled_def)
qed

lemma cleanup_frame:
  "opened (cleanup s) = opened s \<and> streamRef (cleanup s) = streamRef s \<and>
   set (calls s) \<subseteq> set (calls (cleanup s))"
  by (auto simp: cleanup_def stop_tracks_def split: option.splits)

lemma settled_cleanup:
  assumes "settled s"
  shows "settled (cleanup s)"
proof -
  have "live s x" if "live (cleanup s) x" for x
    using cleanup_frame that by (blast intro: live_mono)
  then show ?thesis
    using assms by (auto simp: settled_def cleanup_frame pending_cleanup)
qed

lemma settled_run: "settled s \<Longrightarrow> sequential s es \<Longrightarrow> settled (run s es)"
proof (induction es arbitrary: s)
  case Nil
  then show ?case by (simp add: run_Nil)
next
  case (Cons e es)
  have "settled (step s e)"
  proof (cases e)
    case (Open d)
    with Cons.prems have "pending s = []" by simp
    with Cons.prems(1) show ?thesis using Open by (simp add: settled_call)
  next
    case (Arrive i r)
    show ?thesis unfolding Arrive using Cons.prems(1) by (rule settled_arrive)
  next
    case (Cameras captured permission inventory)
    then show ?thesis using Cons.prems(1) by (simp add: settled_cameras)
  next
    case (Update verdict key v)
    show ?thesis unfolding Update using Cons.prems(1) by (rule settled_update)
  next
    case Cleanup
    then show ?thesis using Cons.prems(1) by (simp add: settled_cleanup)
  qed
  moreover have "sequential (step s e) es" using Cons.prems(2) by (cases e) simp_all
  ultimately have "settled (run (step s e) es)" by (rule Cons.IH)
  then show ?case by (simp add: run_Cons)
qed

text \<open>
  C7, as the code has it. A call of \<open>startStream\<close> (with a non-empty device id) made
  while a stream is held stops every track of the held stream and then requests the new
  stream: the stops stand before the request in the host's log, and the held stream
  is no longer live when the request is made. In every session of the component
  (device listings, calls of \<open>startStream\<close> and their results, field updates,
  cleanups) in which no call of \<open>startStream\<close> is made while a request is in flight,
  at most one of the streams handed out to \<open>startStream\<close> is live at any time.
\<close>

theorem held_stream_stopped_before_request:
  "(\<forall>st. streamRef s = Some st \<and> d \<noteq> [] \<longrightarrow>
      calls (startStream_call d s) =
        calls s @ map (TrackStop (stream_id st)) [0 ..< length (stream_tracks st)] @ [GetUserMedia d] \<and>
      \<not> live (startStream_call d s) st) \<and>
   (sequential initial_session es \<longrightarrow> length (live_open_streams (run initial_session es)) \<le> 1)"
  using settled_at_most_one [OF settled_run [OF settled_initial]]
  by (simp add: calls_startStream_call held_not_live)

theorem held_stream_stopped_before_request_witness:
  "calls (startStream_call ''b'' active_a) = [GetUserMedia ''a'', TrackStop 0 0, GetUserMedia ''b''] \<and>
   length (live_open_streams (run initial_session refresh_then_switch)) \<le> 1"
proof -
  have h: "streamRef active_a = Some \<lparr>stream_id = 0, stream_device = ''a'', stream_tracks = [plain_track]\<rparr>"
    by (simp add: active_a_def run_def startStream_call_def startStream_resume_def initial_session_def Let_def)
  have c: "calls active_a = [GetUserMedia ''a'']"
    by (simp add: active_a_def run_def startStream_call_def startStream_resume_def initial_session_def Let_def)
  have sq: "sequential initial_session refresh_then_switch"
    by (simp add: refresh_then_switch_def pending_startStream_call pending_startStream_resume
        pending_getCameras initial_session_def)
  from held_stream_stopped_before_request [of active_a "''b''" refresh_then_switch] h c sq
  show ?thesis by simp
qed

text \<open>
  C7 as stated fails in its consequence, in two ways. In a session that lists the
  devices and then opens two devices one after the other, the second call made while
  the first stream is held, the stream of the permission request and the second
  stream are both live at the end. With a stream held and two calls made before
  either is answered, the streams of both calls are live at the end.
\<close>

theorem one_live_stream_counterexample:
  "sequential initial_session refresh_then_switch \<and>
   map_option stream_device (streamRef (run initial_session
      [Cameras [] (Granted [plain_track]) (Inr host_inventory),
       Open ''0123456789'', Arrive 0 (Granted [plain_track])])) = Some ''0123456789'' \<and>
   live_streams (run initial_session refresh_then_switch) =
     [\<lparr>stream_id = 0, stream_device = [], stream_tracks = [plain_track]\<rparr>,
      \<lparr>stream_id = 2, stream_device = ''a'', stream_tracks = [wide_track]\<rparr>] \<and>
   map_option stream_device (streamRef (run initial_session
      [Open ''a'', Arrive 0 (Granted [plain_track])])) = Some ''a'' \<and>
   live_open_streams (run initial_session overlap_held) =
     [\<lparr>stream_id = 1, stream_device = ''b'', stream_tracks = [plain_track]\<rparr>,
      \<lparr>stream_id = 2, stream_device = ''c'', stream_tracks = [wide_track]\<rparr>]"
  by (simp add: refresh_then_switch_def overlap_held_def run_def startStream_call_def
      startStream_resume_def getCameras_def stop_tracks_def initial_session_def Let_def
      live_streams_def live_open_streams_def open_streams_def live_def
      videoDevices_def host_inventory_def)

end
